theory Spec2Isabelle
  imports Main "HOL-Library.Word"
begin

section \<open>Machine state\<close>

text \<open>
  The source (\<^verbatim>\<open>PIC16F1704_APW12_1.2_V71_skeleton.c\<close>) touches three special function
  registers, \<^verbatim>\<open>OSCCON\<close>, \<^verbatim>\<open>ANSELA\<close> and \<^verbatim>\<open>ANSELC\<close>, which \<^verbatim>\<open>xc.h\<close> declares as
  \<^verbatim>\<open>volatile unsigned char\<close>. A location is one of these three or any other register or
  memory cell of the device, \<open>Other a\<close>. Every location holds one byte.

  A store to a volatile register is an observable action, so the state carries, beside the
  memory, the list of the stores performed so far, oldest first.
\<close>

datatype loc = OSCCON | ANSELA | ANSELC | Other nat

type_synonym byte = "8 word"

datatype event = Write loc byte

record state =
  mem :: "loc \<Rightarrow> byte"
  writes :: "event list"

text \<open>
  \<^verbatim>\<open>L = v;\<close> with an \<^verbatim>\<open>int\<close> constant \<open>v\<close> and an \<^verbatim>\<open>unsigned char\<close> lvalue: the value is
  converted to eight bits, stored, and the store is logged.
\<close>

definition store :: "loc \<Rightarrow> int \<Rightarrow> state \<Rightarrow> state" where
  "store l v s = s\<lparr>mem := (mem s)(l := word_of_int v), writes := writes s @ [Write l (word_of_int v)]\<rparr>"

text \<open>The state after reset used for concrete runs: memory cleared, nothing stored yet.\<close>

definition reset_state :: state where
  "reset_state = \<lparr>mem = (\<lambda>l. 0), writes = []\<rparr>"

section \<open>The functions as state transformers\<close>

text \<open>
  Every C function of the file has type \<^verbatim>\<open>void f(void)\<close>: it maps the state to a state, or
  fails. Failure is the left injection. No statement of the source raises one.
\<close>

datatype error = Fault

type_synonym 'a except = "error + 'a"

text \<open>Sequencing \<^verbatim>\<open>f(); g();\<close>: the second runs on the state the first returned.\<close>

fun bind_except :: "'a except \<Rightarrow> ('a \<Rightarrow> 'b except) \<Rightarrow> 'b except" where
  "bind_except (Inl e) f = Inl e"
| "bind_except (Inr x) f = f x"

definition assign :: "loc \<Rightarrow> int \<Rightarrow> state \<Rightarrow> state except" where
  "assign l v s = Inr (store l v s)"

text \<open>The ten stubs, lines 19 to 76. Each body holds two comments and no statement.\<close>

definition func_0674 :: "state \<Rightarrow> state except" where
  "func_0674 s = Inr s"

definition func_0193 :: "state \<Rightarrow> state except" where
  "func_0193 s = Inr s"

definition func_0124 :: "state \<Rightarrow> state except" where
  "func_0124 s = Inr s"

definition func_0380 :: "state \<Rightarrow> state except" where
  "func_0380 s = Inr s"

definition func_05EE :: "state \<Rightarrow> state except" where
  "func_05EE s = Inr s"

definition func_0264 :: "state \<Rightarrow> state except" where
  "func_0264 s = Inr s"

definition func_0151 :: "state \<Rightarrow> state except" where
  "func_0151 s = Inr s"

definition func_01CA :: "state \<Rightarrow> state except" where
  "func_01CA s = Inr s"

definition func_0746 :: "state \<Rightarrow> state except" where
  "func_0746 s = Inr s"

definition func_0118 :: "state \<Rightarrow> state except" where
  "func_0118 s = Inr s"

definition stubs :: "(state \<Rightarrow> state except) list" where
  "stubs = [func_0674, func_0193, func_0124, func_0380, func_05EE,
            func_0264, func_0151, func_01CA, func_0746, func_0118]"

text \<open>
  The initialization of \<^verbatim>\<open>main\<close>, lines 80 to 82:
  \<^verbatim>\<open>OSCCON = 0x70; ANSELA = 0x00; ANSELC = 0x00;\<close>
\<close>

definition main_init :: "state \<Rightarrow> state except" where
  "main_init s =
     bind_except (bind_except (assign OSCCON 0x70 s) (assign ANSELA 0x00)) (assign ANSELC 0x00)"

text \<open>The stores a call has performed when it returned; none is recorded for a failure.\<close>

fun observed_writes :: "state except \<Rightarrow> event list" where
  "observed_writes (Inl e) = []"
| "observed_writes (Inr s) = writes s"

section \<open>The program text and its execution\<close>

text \<open>
  The statements the source is written in: an assignment of a constant to a register, a
  \<^verbatim>\<open>while\<close> loop whose condition is a constant, and a call of a function of the file. The
  source holds no call statement; the constructor is there so that the absence is a fact
  about the text and not about the language.
\<close>

datatype fname =
  F_0674 | F_0193 | F_0124 | F_0380 | F_05EE | F_0264 | F_0151 | F_01CA | F_0746 | F_0118
  | F_main

datatype stmt = Assign loc int | While int "stmt list" | Call fname

text \<open>The function definitions of the file, in the order of the source.\<close>

fun program :: "fname \<Rightarrow> stmt list" where
  "program F_0674 = []"
| "program F_0193 = []"
| "program F_0124 = []"
| "program F_0380 = []"
| "program F_05EE = []"
| "program F_0264 = []"
| "program F_0151 = []"
| "program F_01CA = []"
| "program F_0746 = []"
| "program F_0118 = []"
| "program F_main =
     [Assign OSCCON 0x70, Assign ANSELA 0x00, Assign ANSELC 0x00, While 1 []]"

definition stub_names :: "fname list" where
  "stub_names = [F_0674, F_0193, F_0124, F_0380, F_05EE, F_0264, F_0151, F_01CA, F_0746, F_0118]"

text \<open>The functions a statement, a block and a function of the file call.\<close>

fun calls_of :: "stmt \<Rightarrow> fname list" where
  "calls_of (Assign l v) = []"
| "calls_of (While c b) = concat (map calls_of b)"
| "calls_of (Call f) = [f]"

definition callees :: "(fname \<Rightarrow> stmt list) \<Rightarrow> fname \<Rightarrow> fname list" where
  "callees ft f = concat (map calls_of (ft f))"

text \<open>
  A configuration is the statements still to run and the state. One thread runs: there is
  one list of statements. The empty list is the function having returned.

  A step runs the first statement. \<^verbatim>\<open>while (c) { b }\<close> tests \<open>c\<close> against zero and either
  runs the body and comes back to the loop, or leaves it. A call runs the body that the
  function table \<open>ft\<close> gives for the callee.
\<close>

type_synonym config = "stmt list \<times> state"

inductive step :: "(fname \<Rightarrow> stmt list) \<Rightarrow> config \<Rightarrow> config \<Rightarrow> bool"
  for ft :: "fname \<Rightarrow> stmt list" where
  step_Assign: "step ft (Assign l v # k, s) (k, store l v s)"
| step_WhileTrue: "c \<noteq> 0 \<Longrightarrow> step ft (While c b # k, s) (b @ While c b # k, s)"
| step_WhileFalse: "c = 0 \<Longrightarrow> step ft (While c b # k, s) (k, s)"
| step_Call: "step ft (Call f # k, s) (ft f @ k, s)"

inductive steps :: "(fname \<Rightarrow> stmt list) \<Rightarrow> nat \<Rightarrow> config \<Rightarrow> config \<Rightarrow> bool"
  for ft :: "fname \<Rightarrow> stmt list" where
  steps_0: "steps ft 0 c c"
| steps_Suc: "step ft c c' \<Longrightarrow> steps ft n c' c'' \<Longrightarrow> steps ft (Suc n) c c''"

code_pred step .

code_pred steps .

definition terminated :: "config \<Rightarrow> bool" where
  "terminated c = (fst c = [])"

definition at_loop :: "config \<Rightarrow> bool" where
  "at_loop c = (case fst c of While c b # k \<Rightarrow> True | _ \<Rightarrow> False)"

text \<open>The same step as a function, for running the program on concrete states.\<close>

fun exec_step :: "(fname \<Rightarrow> stmt list) \<Rightarrow> config \<Rightarrow> config option" where
  "exec_step ft ([], s) = None"
| "exec_step ft (Assign l v # k, s) = Some (k, store l v s)"
| "exec_step ft (While c b # k, s) = (if c \<noteq> 0 then Some (b @ While c b # k, s) else Some (k, s))"
| "exec_step ft (Call f # k, s) = Some (ft f @ k, s)"

fun exec_n :: "(fname \<Rightarrow> stmt list) \<Rightarrow> nat \<Rightarrow> config \<Rightarrow> config option" where
  "exec_n ft 0 c = Some c"
| "exec_n ft (Suc n) c = (case exec_step ft c of None \<Rightarrow> None | Some c' \<Rightarrow> exec_n ft n c')"

text \<open>The configuration of \<^verbatim>\<open>main\<close> at its loop, line 85.\<close>

definition main_loop :: "stmt list" where
  "main_loop = [While 1 []]"

section \<open>Step relation and step function agree\<close>

lemma step_iff_exec_step: "step ft c c' \<longleftrightarrow> exec_step ft c = Some c'"
proof
  assume "step ft c c'"
  then show "exec_step ft c = Some c'"
    by (induction rule: step.induct) simp_all
next
  assume h: "exec_step ft c = Some c'"
  obtain k s where c: "c = (k, s)" by (cases c)
  show "step ft c c'"
  proof (cases k)
    case Nil
    with h c show ?thesis by simp
  next
    case (Cons x k')
    show ?thesis
    proof (cases x)
      case (Assign l v)
      with h c Cons show ?thesis by (auto intro: step.intros)
    next
      case (While b body)
      with h c Cons show ?thesis by (auto intro: step.intros split: if_splits)
    next
      case (Call f)
      with h c Cons show ?thesis by (auto intro: step.intros)
    qed
  qed
qed

lemma steps_iff_exec_n: "steps ft n c c' \<longleftrightarrow> exec_n ft n c = Some c'"
proof
  assume "steps ft n c c'"
  then show "exec_n ft n c = Some c'"
    by (induction rule: steps.induct) (simp_all add: step_iff_exec_step)
next
  show "exec_n ft n c = Some c' \<Longrightarrow> steps ft n c c'"
  proof (induction n arbitrary: c)
    case 0
    then show ?case by (simp add: steps_0)
  next
    case (Suc n)
    then obtain d where d: "exec_step ft c = Some d" and r: "exec_n ft n d = Some c'"
      by (auto split: option.splits)
    from d have "step ft c d" by (simp add: step_iff_exec_step)
    moreover from r have "steps ft n d c'" by (rule Suc.IH)
    ultimately show ?case by (rule steps_Suc)
  qed
qed

section \<open>Runs of the functions of the file\<close>

lemma store_mem: "mem (store l v s) = (mem s)(l := word_of_int v)"
  by (simp add: store_def)

lemma store_writes: "writes (store l v s) = writes s @ [Write l (word_of_int v)]"
  by (simp add: store_def)

lemma main_init_eq:
  "main_init s = Inr (store ANSELC 0x00 (store ANSELA 0x00 (store OSCCON 0x70 s)))"
  by (simp add: main_init_def assign_def)

lemma stub_text_empty: "f \<in> set stub_names \<Longrightarrow> program f = []"
  by (auto simp add: stub_names_def)

lemma stub_names_complete: "f \<noteq> F_main \<Longrightarrow> f \<in> set stub_names"
  by (cases f) (simp_all add: stub_names_def)

lemma exec_n_returned: "exec_n ft n ([], s) = (if n = 0 then Some ([], s) else None)"
  by (cases n) simp_all

lemma exec_n_main_loop: "exec_n ft n (main_loop, s) = Some (main_loop, s)"
  by (induction n) (simp_all add: main_loop_def)

text \<open>
  The run of \<^verbatim>\<open>main\<close>, step by step, under any function table that gives \<^verbatim>\<open>main\<close> the
  body of the source: three stores, then the loop for ever.
\<close>

lemma exec_n_main:
  assumes "ft F_main = program F_main"
  shows "exec_n ft' n (ft F_main, s) = Some
     (if n = 0 then (program F_main, s)
      else if n = 1 then
        ([Assign ANSELA 0x00, Assign ANSELC 0x00, While 1 []], store OSCCON 0x70 s)
      else if n = 2 then
        ([Assign ANSELC 0x00, While 1 []], store ANSELA 0x00 (store OSCCON 0x70 s))
      else (main_loop, store ANSELC 0x00 (store ANSELA 0x00 (store OSCCON 0x70 s))))"
proof -
  consider "n = 0" | "n = Suc 0" | "n = Suc (Suc 0)" | m where "n = Suc (Suc (Suc m))"
    by (metis not0_implies_Suc)
  then show ?thesis
  proof cases
    case 4
    have "exec_n ft' n (ft F_main, s) =
        exec_n ft' m (main_loop, store ANSELC 0x00 (store ANSELA 0x00 (store OSCCON 0x70 s)))"
      by (simp add: 4 assms main_loop_def)
    with 4 show ?thesis by (simp add: exec_n_main_loop)
  qed (simp_all add: assms)
qed

lemma main_init_steps:
  "steps program 3 (program F_main, s) c \<longleftrightarrow> (\<exists>s'. main_init s = Inr s' \<and> c = (main_loop, s'))"
  using exec_n_main [of program program 3 s]
  by (auto simp add: steps_iff_exec_n main_init_eq)

lemma call_free_exec_step:
  assumes "concat (map calls_of k) = []"
  shows "exec_step ft (k, s) = exec_step ft' (k, s)"
proof (cases k)
  case Nil
  then show ?thesis by simp
next
  case (Cons x k')
  with assms show ?thesis by (cases x) simp_all
qed

lemma call_free_preserved:
  assumes "concat (map calls_of k) = []" and "exec_step ft (k, s) = Some (k', s')"
  shows "concat (map calls_of k') = []"
proof (cases k)
  case Nil
  with assms show ?thesis by simp
next
  case (Cons x k'')
  with assms show ?thesis by (cases x) (auto split: if_splits)
qed

text \<open>A block that holds no call statement runs the same under every function table.\<close>

lemma call_free_exec_n:
  "concat (map calls_of k) = [] \<Longrightarrow> exec_n ft n (k, s) = exec_n ft' n (k, s)"
proof (induction n arbitrary: k s)
  case 0
  show ?case by simp
next
  case (Suc n)
  have same: "exec_step ft (k, s) = exec_step ft' (k, s)"
    using Suc.prems by (rule call_free_exec_step)
  show ?case
  proof (cases "exec_step ft (k, s)")
    case None
    with same show ?thesis by simp
  next
    case (Some d)
    obtain k' s' where d: "d = (k', s')" by (cases d)
    from Some d have l: "exec_step ft (k, s) = Some (k', s')" by simp
    with same have r: "exec_step ft' (k, s) = Some (k', s')" by simp
    from Suc.prems l have "concat (map calls_of k') = []" by (rule call_free_preserved)
    then have "exec_n ft n (k', s') = exec_n ft' n (k', s')" by (rule Suc.IH)
    then show ?thesis by (simp add: l r)
  qed
qed

lemma step_deterministic: "step ft c c1 \<Longrightarrow> step ft c c2 \<Longrightarrow> c1 = c2"
  by (auto elim!: step.cases)

lemma steps_deterministic: "steps ft n c c1 \<Longrightarrow> steps ft n c c2 \<Longrightarrow> c1 = c2"
proof (induction arbitrary: c2 rule: steps.induct)
  case (steps_0 c)
  then show ?case by (auto elim: steps.cases)
next
  case (steps_Suc c c' n c'')
  from steps_Suc.prems obtain d where d: "step ft c d" and r: "steps ft n d c2"
    by (auto elim: steps.cases)
  from steps_Suc.hyps(1) d have "c' = d" by (rule step_deterministic)
  with r show ?case by (simp add: steps_Suc.IH)
qed

section \<open>The stubs\<close>

lemma stub_identity: "f \<in> set stubs \<Longrightarrow> f s = Inr s"
  by (auto simp add: stubs_def func_0674_def func_0193_def func_0124_def func_0380_def
      func_05EE_def func_0264_def func_0151_def func_01CA_def func_0746_def func_0118_def)

text \<open>
  C2. Each of the ten stub functions is a no-op: called in any state, it returns, and the
  state it returns, memory, registers and the log of stores, is the state it was called in.
\<close>

theorem stubs_are_noops:
  "func_0674 s = Inr s \<and> func_0193 s = Inr s \<and> func_0124 s = Inr s \<and> func_0380 s = Inr s
   \<and> func_05EE s = Inr s \<and> func_0264 s = Inr s \<and> func_0151 s = Inr s \<and> func_01CA s = Inr s
   \<and> func_0746 s = Inr s \<and> func_0118 s = Inr s"
  by (simp add: func_0674_def func_0193_def func_0124_def func_0380_def func_05EE_def
      func_0264_def func_0151_def func_01CA_def func_0746_def func_0118_def)

text \<open>
  C7. No function of the program fails: the initialization of \<^verbatim>\<open>main\<close> and each of the ten
  stubs returns a success value, never an error, in every state.
\<close>

theorem no_function_fails:
  "(\<exists>s'. main_init s = Inr s')
   \<and> (\<exists>s'. func_0674 s = Inr s') \<and> (\<exists>s'. func_0193 s = Inr s') \<and> (\<exists>s'. func_0124 s = Inr s')
   \<and> (\<exists>s'. func_0380 s = Inr s') \<and> (\<exists>s'. func_05EE s = Inr s') \<and> (\<exists>s'. func_0264 s = Inr s')
   \<and> (\<exists>s'. func_0151 s = Inr s') \<and> (\<exists>s'. func_01CA s = Inr s') \<and> (\<exists>s'. func_0746 s = Inr s')
   \<and> (\<exists>s'. func_0118 s = Inr s')"
  by (simp add: main_init_eq func_0674_def func_0193_def func_0124_def func_0380_def
      func_05EE_def func_0264_def func_0151_def func_01CA_def func_0746_def func_0118_def)

text \<open>
  C9. For every two stubs \<open>f\<close> and \<open>g\<close> and every state: running \<open>f\<close> twice is running it
  once, running \<open>g\<close> then \<open>f\<close> is running \<open>f\<close> then \<open>g\<close>, and \<open>f\<close> returns the state it was
  given.
\<close>

theorem stubs_idempotent_commute:
  "\<forall>f \<in> set stubs. \<forall>g \<in> set stubs.
     bind_except (f s) f = f s \<and> bind_except (g s) f = bind_except (f s) g \<and> f s = Inr s"
  by (simp add: stub_identity)

theorem stubs_idempotent_commute_witness:
  "func_0674 \<in> set stubs \<and> func_0118 \<in> set stubs
   \<and> bind_except (func_0674 reset_state) func_0674 = func_0674 reset_state
   \<and> bind_except (func_0118 reset_state) func_0674 = bind_except (func_0674 reset_state) func_0118
   \<and> func_0674 reset_state = Inr reset_state"
proof -
  have f: "func_0674 \<in> set stubs" and g: "func_0118 \<in> set stubs"
    by (simp_all add: stubs_def)
  from stubs_idempotent_commute [of reset_state] f g show ?thesis
    by blast
qed

section \<open>The initialization of main\<close>

text \<open>
  C10. The values of \<^verbatim>\<open>OSCCON\<close>, \<^verbatim>\<open>ANSELA\<close> and \<^verbatim>\<open>ANSELC\<close> after the initialization of
  \<^verbatim>\<open>main\<close> do not depend on the initial state: from any two states the initialization
  returns, and both states returned hold 0x70, 0x00 and 0x00 in the three registers.
\<close>

theorem main_init_independent_of_initial_state:
  "\<exists>t1 t2. main_init s1 = Inr t1 \<and> main_init s2 = Inr t2
     \<and> mem t1 OSCCON = 0x70 \<and> mem t2 OSCCON = 0x70
     \<and> mem t1 ANSELA = 0x00 \<and> mem t2 ANSELA = 0x00
     \<and> mem t1 ANSELC = 0x00 \<and> mem t2 ANSELC = 0x00"
  by (simp add: main_init_eq store_mem)

section \<open>The run of main\<close>

lemma steps_main_iff:
  "steps program n (program F_main, s) c \<longleftrightarrow> c =
     (if n = 0 then (program F_main, s)
      else if n = 1 then
        ([Assign ANSELA 0x00, Assign ANSELC 0x00, While 1 []], store OSCCON 0x70 s)
      else if n = 2 then
        ([Assign ANSELC 0x00, While 1 []], store ANSELA 0x00 (store OSCCON 0x70 s))
      else (main_loop, store ANSELC 0x00 (store ANSELA 0x00 (store OSCCON 0x70 s))))"
  unfolding steps_iff_exec_n exec_n_main [of program, OF refl] by auto

lemma steps_stub_iff:
  assumes "f \<noteq> F_main"
  shows "steps program n (program f, s) c \<longleftrightarrow> n = 0 \<and> c = ([], s)"
proof -
  from assms have "program f = []" by (simp add: stub_names_complete stub_text_empty)
  then show ?thesis by (auto simp add: steps_iff_exec_n exec_n_returned)
qed

text \<open>
  The text of a stub and the stub as a state transformer agree: the run of the text has
  returned in state \<open>s'\<close> exactly when the transformer returns \<open>s'\<close>.
\<close>

lemma stub_text_agrees:
  assumes "(f, g) \<in> set (zip stub_names stubs)"
  shows "(\<exists>n. steps program n (program f, s) ([], s')) \<longleftrightarrow> g s = Inr s'"
proof -
  from assms have "f \<in> set stub_names" and g: "g \<in> set stubs"
    by (auto dest: set_zip_leftD set_zip_rightD)
  then have "f \<noteq> F_main"
    by (auto simp add: stub_names_def)
  then have "(\<exists>n. steps program n (program f, s) ([], s')) \<longleftrightarrow> s' = s"
    by (auto simp add: steps_stub_iff)
  with g show ?thesis
    by (auto simp add: stub_identity)
qed

lemma steps_main_loop_iff: "steps ft n (main_loop, s) c \<longleftrightarrow> c = (main_loop, s)"
  by (auto simp add: steps_iff_exec_n exec_n_main_loop)

lemma step_main_loop_iff: "step ft (main_loop, s) c \<longleftrightarrow> c = (main_loop, s)"
  by (auto simp add: step_iff_exec_step main_loop_def)

lemma steps_main_cases:
  assumes "steps program n (program F_main, s) c"
  obtains "n = 0" and "c = (program F_main, s)"
  | "n = 1" and "c = ([Assign ANSELA 0x00, Assign ANSELC 0x00, While 1 []], store OSCCON 0x70 s)"
  | "n = 2" and "c = ([Assign ANSELC 0x00, While 1 []], store ANSELA 0x00 (store OSCCON 0x70 s))"
  | "3 \<le> n" and "c = (main_loop, store ANSELC 0x00 (store ANSELA 0x00 (store OSCCON 0x70 s)))"
proof -
  from assms have c: "c =
     (if n = 0 then (program F_main, s)
      else if n = 1 then
        ([Assign ANSELA 0x00, Assign ANSELC 0x00, While 1 []], store OSCCON 0x70 s)
      else if n = 2 then
        ([Assign ANSELC 0x00, While 1 []], store ANSELA 0x00 (store OSCCON 0x70 s))
      else (main_loop, store ANSELC 0x00 (store ANSELA 0x00 (store OSCCON 0x70 s))))"
    by (simp only: steps_main_iff)
  consider "n = 0" | "n = 1" | "n = 2" | "3 \<le> n" by linarith
  then show thesis
  proof cases
    case 1
    with c that(1) show thesis by simp
  next
    case 2
    with c that(2) show thesis by simp
  next
    case 3
    with c that(3) show thesis by simp
  next
    case 4
    with c that(4) show thesis by simp
  qed
qed

text \<open>
  C1. \<^verbatim>\<open>main\<close> performs the stores \<^verbatim>\<open>OSCCON = 0x70\<close>, \<^verbatim>\<open>ANSELA = 0x00\<close> and
  \<^verbatim>\<open>ANSELC = 0x00\<close>, in that order, and all three have been performed before the loop is
  first executed. The run reaches the loop after three steps; there the three stores, in
  this order, have been added to the log, and the memory is the initial memory with the
  three registers set to 0x70, 0x00 and 0x00. Step by step, the run has set \<^verbatim>\<open>OSCCON\<close>
  alone after one step, \<^verbatim>\<open>OSCCON\<close> and \<^verbatim>\<open>ANSELA\<close> after two, and all three from the third
  step on, with the log growing by one store each time. Whenever a run of \<^verbatim>\<open>main\<close> stands
  at a loop, at least three steps have been taken, and the log and the memory hold the
  three stores.
\<close>

theorem main_startup_writes_before_loop:
  "(\<exists>s'. steps program 3 (program F_main, s) (main_loop, s')
      \<and> writes s' = writes s @ [Write OSCCON 0x70, Write ANSELA 0x00, Write ANSELC 0x00]
      \<and> mem s' = (mem s)(OSCCON := 0x70, ANSELA := 0x00, ANSELC := 0x00))
   \<and> (\<forall>n c. steps program n (program F_main, s) c \<longrightarrow>
        writes (snd c) = writes s @ take n [Write OSCCON 0x70, Write ANSELA 0x00, Write ANSELC 0x00]
        \<and> (n = 0 \<longrightarrow> mem (snd c) = mem s)
        \<and> (n = 1 \<longrightarrow> mem (snd c) = (mem s)(OSCCON := 0x70))
        \<and> (n = 2 \<longrightarrow> mem (snd c) = (mem s)(OSCCON := 0x70, ANSELA := 0x00))
        \<and> (3 \<le> n \<longrightarrow> mem (snd c) = (mem s)(OSCCON := 0x70, ANSELA := 0x00, ANSELC := 0x00)))
   \<and> (\<forall>n c. steps program n (program F_main, s) c \<and> at_loop c \<longrightarrow>
        3 \<le> n
        \<and> writes (snd c) = writes s @ [Write OSCCON 0x70, Write ANSELA 0x00, Write ANSELC 0x00]
        \<and> mem (snd c) OSCCON = 0x70 \<and> mem (snd c) ANSELA = 0x00 \<and> mem (snd c) ANSELC = 0x00)"
proof (intro conjI allI impI)
  let ?t = "store ANSELC 0x00 (store ANSELA 0x00 (store OSCCON 0x70 s))"
  have "steps program 3 (program F_main, s) (main_loop, ?t)"
    by (subst main_init_steps) (simp add: main_init_eq)
  moreover have "writes ?t = writes s @ [Write OSCCON 0x70, Write ANSELA 0x00, Write ANSELC 0x00]"
    by (simp add: store_writes)
  moreover have "mem ?t = (mem s)(OSCCON := 0x70, ANSELA := 0x00, ANSELC := 0x00)"
    by (simp add: store_mem)
  ultimately show "\<exists>s'. steps program 3 (program F_main, s) (main_loop, s')
      \<and> writes s' = writes s @ [Write OSCCON 0x70, Write ANSELA 0x00, Write ANSELC 0x00]
      \<and> mem s' = (mem s)(OSCCON := 0x70, ANSELA := 0x00, ANSELC := 0x00)"
    by blast
next
  fix n c
  assume run: "steps program n (program F_main, s) c"
  then show "writes (snd c)
      = writes s @ take n [Write OSCCON 0x70, Write ANSELA 0x00, Write ANSELC 0x00]"
    by (rule steps_main_cases) (simp_all add: store_writes)
next
  fix n c
  assume run: "steps program n (program F_main, s) c" and n: "n = 0"
  from run show "mem (snd c) = mem s"
    by (rule steps_main_cases) (use n in simp_all)
next
  fix n c
  assume run: "steps program n (program F_main, s) c" and n: "n = 1"
  from run show "mem (snd c) = (mem s)(OSCCON := 0x70)"
    by (rule steps_main_cases) (use n in \<open>simp_all add: store_mem\<close>)
next
  fix n c
  assume run: "steps program n (program F_main, s) c" and n: "n = 2"
  from run show "mem (snd c) = (mem s)(OSCCON := 0x70, ANSELA := 0x00)"
    by (rule steps_main_cases) (use n in \<open>simp_all add: store_mem\<close>)
next
  fix n c
  assume run: "steps program n (program F_main, s) c" and n: "3 \<le> n"
  from run show "mem (snd c) = (mem s)(OSCCON := 0x70, ANSELA := 0x00, ANSELC := 0x00)"
    by (rule steps_main_cases) (use n in \<open>simp_all add: store_mem\<close>)
next
  fix n c
  assume h: "steps program n (program F_main, s) c \<and> at_loop c"
  then have run: "steps program n (program F_main, s) c" and loop: "at_loop c"
    by simp_all
  from run have "3 \<le> n \<and> c = (main_loop, store ANSELC 0x00 (store ANSELA 0x00 (store OSCCON 0x70 s)))"
    by (rule steps_main_cases) (use loop in \<open>simp_all add: at_loop_def\<close>)
  then show "3 \<le> n"
    and "writes (snd c) = writes s @ [Write OSCCON 0x70, Write ANSELA 0x00, Write ANSELC 0x00]"
    and "mem (snd c) OSCCON = 0x70" and "mem (snd c) ANSELA = 0x00" and "mem (snd c) ANSELC = 0x00"
    by (simp_all add: store_writes store_mem)
qed

theorem main_startup_writes_before_loop_witness:
  "steps program 3 (program F_main, reset_state)
     (main_loop, store ANSELC 0x00 (store ANSELA 0x00 (store OSCCON 0x70 reset_state)))
   \<and> at_loop (main_loop, store ANSELC 0x00 (store ANSELA 0x00 (store OSCCON 0x70 reset_state)))
   \<and> (3::nat) \<le> 3
   \<and> writes (store ANSELC 0x00 (store ANSELA 0x00 (store OSCCON 0x70 reset_state)))
       = [Write OSCCON 0x70, Write ANSELA 0x00, Write ANSELC 0x00]
   \<and> mem (store ANSELC 0x00 (store ANSELA 0x00 (store OSCCON 0x70 reset_state))) OSCCON = 0x70
   \<and> mem (store ANSELC 0x00 (store ANSELA 0x00 (store OSCCON 0x70 reset_state))) ANSELA = 0x00
   \<and> mem (store ANSELC 0x00 (store ANSELA 0x00 (store OSCCON 0x70 reset_state))) ANSELC = 0x00"
proof -
  let ?c = "(main_loop, store ANSELC 0x00 (store ANSELA 0x00 (store OSCCON 0x70 reset_state)))"
  have r: "steps program 3 (program F_main, reset_state) ?c"
    by (subst steps_main_iff) simp
  have l: "at_loop ?c"
    by (simp add: at_loop_def main_loop_def)
  from main_startup_writes_before_loop [of reset_state] r l
  have "3 \<le> (3::nat)
      \<and> writes (snd ?c)
        = writes reset_state @ [Write OSCCON 0x70, Write ANSELA 0x00, Write ANSELC 0x00]
      \<and> mem (snd ?c) OSCCON = 0x70 \<and> mem (snd ?c) ANSELA = 0x00 \<and> mem (snd ?c) ANSELC = 0x00"
    by blast
  with r l show ?thesis by (simp add: reset_state_def)
qed

text \<open>
  C3. \<^verbatim>\<open>main\<close> never returns: from every initial state and for every number of steps the
  run of \<^verbatim>\<open>main\<close> exists, the configuration it reaches is not a terminated one, and it can
  take a further step.
\<close>

theorem main_never_returns:
  "(\<exists>c. steps program n (program F_main, s) c)
   \<and> (\<forall>c. steps program n (program F_main, s) c \<longrightarrow> \<not> terminated c \<and> (\<exists>c'. step program c c'))"
proof (intro conjI allI impI)
  show "\<exists>c. steps program n (program F_main, s) c"
    by (subst steps_main_iff) blast
next
  fix c
  assume "steps program n (program F_main, s) c"
  then have c: "c =
     (if n = 0 then (program F_main, s)
      else if n = 1 then
        ([Assign ANSELA 0x00, Assign ANSELC 0x00, While 1 []], store OSCCON 0x70 s)
      else if n = 2 then
        ([Assign ANSELC 0x00, While 1 []], store ANSELA 0x00 (store OSCCON 0x70 s))
      else (main_loop, store ANSELC 0x00 (store ANSELA 0x00 (store OSCCON 0x70 s))))"
    by (simp only: steps_main_iff)
  then show "\<not> terminated c"
    by (simp add: terminated_def main_loop_def)
  from c have "exec_step program c \<noteq> None"
    by (simp add: main_loop_def)
  then show "\<exists>c'. step program c c'"
    by (auto simp add: step_iff_exec_step)
qed

theorem main_never_returns_witness:
  "steps program 5 (program F_main, reset_state)
     (main_loop, store ANSELC 0x00 (store ANSELA 0x00 (store OSCCON 0x70 reset_state)))
   \<and> \<not> terminated (main_loop, store ANSELC 0x00 (store ANSELA 0x00 (store OSCCON 0x70 reset_state)))
   \<and> (\<exists>c'. step program
        (main_loop, store ANSELC 0x00 (store ANSELA 0x00 (store OSCCON 0x70 reset_state))) c')"
proof -
  let ?c = "(main_loop, store ANSELC 0x00 (store ANSELA 0x00 (store OSCCON 0x70 reset_state)))"
  have r: "steps program 5 (program F_main, reset_state) ?c"
    by (subst steps_main_iff) simp
  with main_never_returns [of 5 reset_state] show ?thesis
    by blast
qed

text \<open>
  C5. Once \<^verbatim>\<open>main\<close> has performed its three stores and stands at the loop, every
  configuration reachable from there is that same configuration: the loop step maps it to
  itself and to nothing else, so the whole state is preserved and \<^verbatim>\<open>OSCCON\<close> = 0x70,
  \<^verbatim>\<open>ANSELA\<close> = 0x00 and \<^verbatim>\<open>ANSELC\<close> = 0x00 hold in all of them.
\<close>

theorem loop_preserves_initialized_state:
  assumes "steps program 3 (program F_main, s) c3" and "steps program n c3 c"
  shows "at_loop c3 \<and> c = c3 \<and> (\<forall>c'. step program c3 c' = (c' = c3))
     \<and> mem (snd c) OSCCON = 0x70 \<and> mem (snd c) ANSELA = 0x00 \<and> mem (snd c) ANSELC = 0x00"
proof -
  let ?t = "store ANSELC 0x00 (store ANSELA 0x00 (store OSCCON 0x70 s))"
  from assms(1) have c3: "c3 = (main_loop, ?t)"
    by (rule steps_main_cases) simp_all
  with assms(2) have c: "c = c3"
    by (simp add: steps_main_loop_iff)
  have "at_loop c3"
    by (simp add: c3 at_loop_def main_loop_def)
  moreover have "\<forall>c'. step program c3 c' = (c' = c3)"
    by (simp add: c3 step_main_loop_iff)
  moreover have "mem (snd c) OSCCON = 0x70 \<and> mem (snd c) ANSELA = 0x00 \<and> mem (snd c) ANSELC = 0x00"
    by (simp add: c c3 store_mem)
  ultimately show ?thesis using c by blast
qed

theorem loop_preserves_initialized_state_witness:
  "steps program 3 (program F_main, reset_state)
     (main_loop, store ANSELC 0x00 (store ANSELA 0x00 (store OSCCON 0x70 reset_state)))
   \<and> steps program 2
     (main_loop, store ANSELC 0x00 (store ANSELA 0x00 (store OSCCON 0x70 reset_state)))
     (main_loop, store ANSELC 0x00 (store ANSELA 0x00 (store OSCCON 0x70 reset_state)))
   \<and> mem (store ANSELC 0x00 (store ANSELA 0x00 (store OSCCON 0x70 reset_state))) OSCCON = 0x70
   \<and> mem (store ANSELC 0x00 (store ANSELA 0x00 (store OSCCON 0x70 reset_state))) ANSELA = 0x00
   \<and> mem (store ANSELC 0x00 (store ANSELA 0x00 (store OSCCON 0x70 reset_state))) ANSELC = 0x00"
proof -
  let ?c = "(main_loop, store ANSELC 0x00 (store ANSELA 0x00 (store OSCCON 0x70 reset_state)))"
  have a: "steps program 3 (program F_main, reset_state) ?c"
    by (subst steps_main_iff) simp
  have b: "steps program 2 ?c ?c"
    by (simp add: steps_main_loop_iff)
  from loop_preserves_initialized_state [OF a b] a b show ?thesis
    by simp
qed

text \<open>
  C8. Execution is deterministic: two runs of the same function of the file, \<^verbatim>\<open>main\<close> or a
  stub, from the same state and of the same number of steps end in the same configuration.
\<close>

theorem execution_deterministic:
  assumes "steps program n (program f, s) c1" and "steps program n (program f, s) c2"
  shows "c1 = c2"
  using assms by (rule steps_deterministic)

theorem execution_deterministic_witness:
  "steps program 4 (program F_main, reset_state)
     (main_loop, store ANSELC 0x00 (store ANSELA 0x00 (store OSCCON 0x70 reset_state)))
   \<and> steps program 4 (program F_main, reset_state)
     ([While 1 []], store ANSELC 0x00 (store ANSELA 0x00 (store OSCCON 0x70 reset_state)))
   \<and> (main_loop, store ANSELC 0x00 (store ANSELA 0x00 (store OSCCON 0x70 reset_state)))
     = ([While 1 []], store ANSELC 0x00 (store ANSELA 0x00 (store OSCCON 0x70 reset_state)))"
proof -
  let ?t = "store ANSELC 0x00 (store ANSELA 0x00 (store OSCCON 0x70 reset_state))"
  have a: "steps program 4 (program F_main, reset_state) (main_loop, ?t)"
    by (subst steps_main_iff) simp
  have b: "steps program 4 (program F_main, reset_state) ([While 1 []], ?t)"
    by (subst steps_main_iff) (simp add: main_loop_def)
  from execution_deterministic [OF a b] a b show ?thesis
    by simp
qed

section \<open>The call graph\<close>

text \<open>
  C6. The ten stubs are disconnected leaves: no function of the file, \<^verbatim>\<open>main\<close> included,
  holds a call statement, so none calls a stub and no stub calls a function; and the runs of
  \<^verbatim>\<open>main\<close> are the same whatever bodies the function table gives to the ten stubs.
\<close>

theorem stubs_disconnected:
  "(\<forall>f. callees program f = [])
   \<and> (\<forall>g n s c. steps (g(F_main := program F_main)) n (program F_main, s) c
         = steps program n (program F_main, s) c)"
proof (intro conjI allI)
  fix f
  show "callees program f = []"
    by (cases f) (simp_all add: callees_def)
next
  fix g :: "fname \<Rightarrow> stmt list" and n s c
  have "concat (map calls_of (program F_main)) = []"
    by simp
  then have "exec_n (g(F_main := program F_main)) n (program F_main, s)
      = exec_n program n (program F_main, s)"
    by (rule call_free_exec_n)
  then show "steps (g(F_main := program F_main)) n (program F_main, s) c
      = steps program n (program F_main, s) c"
    by (simp only: steps_iff_exec_n)
qed

theorem stubs_disconnected_witness:
  "callees program F_0674 = []
   \<and> steps ((program(F_0674 := [Call F_main]))(F_main := program F_main)) 3
        (program F_main, reset_state)
        (main_loop, store ANSELC 0x00 (store ANSELA 0x00 (store OSCCON 0x70 reset_state)))
   \<and> steps program 3 (program F_main, reset_state)
        (main_loop, store ANSELC 0x00 (store ANSELA 0x00 (store OSCCON 0x70 reset_state)))"
proof -
  let ?c = "(main_loop, store ANSELC 0x00 (store ANSELA 0x00 (store OSCCON 0x70 reset_state)))"
  have a: "steps program 3 (program F_main, reset_state) ?c"
    by (subst steps_main_iff) simp
  from stubs_disconnected a show ?thesis
    by blast
qed

section \<open>The stores of the program\<close>

text \<open>
  C4. The observable actions of the program are two register writes at startup: the
  oscillator configuration register \<^verbatim>\<open>OSCCON\<close> is given the value 0x70, and the port
  analog-select registers \<^verbatim>\<open>ANSELA\<close> and \<^verbatim>\<open>ANSELC\<close> are cleared to 0x00. The
  initialization of \<^verbatim>\<open>main\<close> adds exactly these to the log and returns the memory it was
  given with these registers set and every other location as it was. No function writes
  anything else: a run of \<^verbatim>\<open>main\<close> of \<open>n\<close> steps has logged the first \<open>n\<close> of these stores
  and no other, a run of a stub leaves the whole state as it was, and no run of any function
  changes a location other than the three registers.
\<close>

theorem only_startup_writes:
  "observed_writes (main_init s)
     = writes s @ [Write OSCCON 0x70] @ map (\<lambda>l. Write l 0x00) [ANSELA, ANSELC]
   \<and> (\<exists>t. main_init s = Inr t
        \<and> mem t = (mem s)(OSCCON := 0x70, ANSELA := 0x00, ANSELC := 0x00))
   \<and> (\<forall>f n c. steps program n (program f, s) c \<longrightarrow>
        writes (snd c) = writes s @
          (if f = F_main
           then take n ([Write OSCCON 0x70] @ map (\<lambda>l. Write l 0x00) [ANSELA, ANSELC])
           else [])
        \<and> (f \<noteq> F_main \<longrightarrow> snd c = s)
        \<and> (\<forall>l. l \<notin> {OSCCON, ANSELA, ANSELC} \<longrightarrow> mem (snd c) l = mem s l))"
proof (intro conjI allI impI)
  show "observed_writes (main_init s)
     = writes s @ [Write OSCCON 0x70] @ map (\<lambda>l. Write l 0x00) [ANSELA, ANSELC]"
    by (simp add: main_init_eq store_writes)
next
  show "\<exists>t. main_init s = Inr t
        \<and> mem t = (mem s)(OSCCON := 0x70, ANSELA := 0x00, ANSELC := 0x00)"
    by (simp add: main_init_eq store_mem)
next
  fix f n c
  assume run: "steps program n (program f, s) c"
  show "writes (snd c) = writes s @
          (if f = F_main
           then take n ([Write OSCCON 0x70] @ map (\<lambda>l. Write l 0x00) [ANSELA, ANSELC])
           else [])"
  proof (cases "f = F_main")
    case True
    with run have "steps program n (program F_main, s) c" by simp
    then show ?thesis
      by (rule steps_main_cases) (simp_all add: True store_writes)
  next
    case False
    with run show ?thesis by (simp add: steps_stub_iff)
  qed
next
  fix f n c
  assume "steps program n (program f, s) c" and "f \<noteq> F_main"
  then show "snd c = s"
    by (simp add: steps_stub_iff)
next
  fix f n c l
  assume run: "steps program n (program f, s) c" and l: "l \<notin> {OSCCON, ANSELA, ANSELC}"
  show "mem (snd c) l = mem s l"
  proof (cases "f = F_main")
    case True
    with run have "steps program n (program F_main, s) c" by simp
    then show ?thesis
      by (rule steps_main_cases) (use l in \<open>simp_all add: store_mem\<close>)
  next
    case False
    with run show ?thesis by (simp add: steps_stub_iff)
  qed
qed

theorem only_startup_writes_witness:
  "steps program 3 (program F_main, reset_state)
     (main_loop, store ANSELC 0x00 (store ANSELA 0x00 (store OSCCON 0x70 reset_state)))
   \<and> Other 5 \<notin> {OSCCON, ANSELA, ANSELC}
   \<and> writes (store ANSELC 0x00 (store ANSELA 0x00 (store OSCCON 0x70 reset_state)))
       = [Write OSCCON 0x70, Write ANSELA 0x00, Write ANSELC 0x00]
   \<and> mem (store ANSELC 0x00 (store ANSELA 0x00 (store OSCCON 0x70 reset_state))) (Other 5)
       = mem reset_state (Other 5)"
proof -
  let ?c = "(main_loop, store ANSELC 0x00 (store ANSELA 0x00 (store OSCCON 0x70 reset_state)))"
  have a: "steps program 3 (program F_main, reset_state) ?c"
    by (subst steps_main_iff) simp
  have b: "Other 5 \<notin> {OSCCON, ANSELA, ANSELC}"
    by simp
  from only_startup_writes [of reset_state] a
  have "writes (snd ?c) = writes reset_state @
          (if F_main = F_main
           then take 3 ([Write OSCCON 0x70] @ map (\<lambda>l. Write l 0x00) [ANSELA, ANSELC])
           else [])
        \<and> (\<forall>l. l \<notin> {OSCCON, ANSELA, ANSELC} \<longrightarrow> mem (snd ?c) l = mem reset_state l)"
    by blast
  with a b show ?thesis
    by (simp add: reset_state_def)
qed

end
